theory Spec2Isabelle
  imports Complex_Main "HOL-Library.AList" "HOL-Library.Product_Lexorder"
begin

section \<open>The slime-mold simulation of slife.py\<close>

text \<open>
  The model follows \<^verbatim>\<open>src/slife.py\<close> function by function. Numbers are exact reals
  (the specification's data model speaks of real-valued fields); the rounding of Python's
  floats is outside the model. A Python dict is an association list in insertion order
  with distinct keys; a raised exception is the \<open>Inl\<close> branch of a sum.
\<close>

subsection \<open>Configuration and data model\<close>

datatype py_error = KeyError | NotImplementedError

record config =
  grid_size :: real
  initial_cells :: real
  food_capacity :: real
  food_consumption_rate :: real
  camp_decay :: real
  amplification_factor :: real
  refractory_period :: real

definition CONFIG :: config where
  "CONFIG = \<lparr> grid_size = 50, initial_cells = 100, food_capacity = 5,
     food_consumption_rate = 0.1, camp_decay = 0.1, amplification_factor = 1.5,
     refractory_period = 5 \<rparr>"

type_synonym coord = "int \<times> int"

record site =
  mold :: real
  food :: real
  camp :: real
  refractory :: real

type_synonym grid = "(coord \<times> site) list"

definition zero_site :: site where
  "zero_site = \<lparr> mold = 0, food = 0, camp = 0, refractory = 0 \<rparr>"

text \<open>\<^verbatim>\<open>all(v == 0 for v in state.values())\<close>\<close>

definition all_zero :: "site \<Rightarrow> bool" where
  "all_zero state \<longleftrightarrow> mold state = 0 \<and> food state = 0 \<and> camp state = 0 \<and> refractory state = 0"

definition keys :: "grid \<Rightarrow> coord list" where
  "keys grid = map fst grid"

subsection \<open>Iteration and dict accesses that may raise\<close>

text \<open>A \<^verbatim>\<open>for\<close> loop whose body may raise: the first exception ends the loop.\<close>

fun fold_err :: "('a \<Rightarrow> 'b \<Rightarrow> 'e + 'b) \<Rightarrow> 'a list \<Rightarrow> 'b \<Rightarrow> 'e + 'b" where
  "fold_err f [] s = Inr s"
| "fold_err f (x # xs) s = (case f x s of Inl e \<Rightarrow> Inl e | Inr s' \<Rightarrow> fold_err f xs s')"

text \<open>\<^verbatim>\<open>grid[coord]\<close> raises KeyError on a missing key.\<close>

definition lookup :: "grid \<Rightarrow> coord \<Rightarrow> py_error + site" where
  "lookup grid coord = (case map_of grid coord of None \<Rightarrow> Inl KeyError | Some state \<Rightarrow> Inr state)"

fun lookup_all :: "grid \<Rightarrow> coord list \<Rightarrow> py_error + site list" where
  "lookup_all grid [] = Inr []"
| "lookup_all grid (c # cs) =
     (case lookup grid c of Inl e \<Rightarrow> Inl e
      | Inr state \<Rightarrow> (case lookup_all grid cs of Inl e \<Rightarrow> Inl e | Inr states \<Rightarrow> Inr (state # states)))"

text \<open>
  \<^verbatim>\<open>next_grid[coord][field] += v\<close>: the site is looked up first (KeyError when the
  coordinate is missing), then the field of that site is changed in place.
\<close>

definition upd_site :: "coord \<Rightarrow> (site \<Rightarrow> site) \<Rightarrow> grid \<Rightarrow> py_error + grid" where
  "upd_site coord f next_grid =
     (case map_of next_grid coord of
        None \<Rightarrow> Inl KeyError
      | Some state \<Rightarrow> Inr (AList.update coord (f state) next_grid))"

text \<open>\<^verbatim>\<open>del grid[key]\<close>\<close>

definition del_key :: "coord \<Rightarrow> grid \<Rightarrow> py_error + grid" where
  "del_key key grid =
     (if key \<in> set (keys grid) then Inr (AList.delete key grid) else Inl KeyError)"

subsection \<open>GridUtils\<close>

definition neighbors :: "coord \<Rightarrow> coord list" where
  "neighbors coord = (case coord of (x, y) \<Rightarrow> [(x - 1, y), (x + 1, y), (x, y - 1), (x, y + 1)])"

definition prune_empty_sites :: "grid \<Rightarrow> py_error + grid" where
  "prune_empty_sites grid =
     (let keys_to_delete = map fst (filter (\<lambda>(coord, state). all_zero state) grid)
      in fold_err del_key keys_to_delete grid)"

definition new_cells :: "grid \<Rightarrow> coord list" where
  "new_cells grid =
     concat (map (\<lambda>coord. filter (\<lambda>neighbor. neighbor \<notin> set (keys grid)) (neighbors coord))
                 (keys grid))"

definition expand_grid :: "grid \<Rightarrow> grid" where
  "expand_grid grid = fold (\<lambda>cell g. AList.update cell zero_site g) (new_cells grid) grid"

subsection \<open>Behaviors\<close>

datatype behavior = MoldBehavior | FoodBehavior | CampBehavior

fun is_process_site :: "behavior \<Rightarrow> site \<Rightarrow> bool" where
  "is_process_site MoldBehavior state \<longleftrightarrow> mold state > 0"
| "is_process_site FoodBehavior state \<longleftrightarrow>
     mold state > 0 \<and> food state \<ge> food_consumption_rate CONFIG"
| "is_process_site CampBehavior state \<longleftrightarrow> True"

text \<open>
  \<^verbatim>\<open>sorted(neighbors(coord), key=lambda n: (-grid[n]["camp"], grid[n]["mold"]))\<close>:
  the keys are computed first (KeyError on a neighbor missing from the grid), the sort is
  stable and compares the key pairs lexicographically.
\<close>

definition ranked_neighbors :: "grid \<Rightarrow> coord \<Rightarrow> py_error + coord list" where
  "ranked_neighbors grid coord =
     (case lookup_all grid (neighbors coord) of
        Inl e \<Rightarrow> Inl e
      | Inr states \<Rightarrow>
          Inr (map fst (sort_key (\<lambda>(neighbor, state). (- camp state, mold state))
                                 (zip (neighbors coord) states))))"

text \<open>
  The weight computed in the body of the loop of \<^verbatim>\<open>MoldBehavior.process_site\<close>.
  Python rounds the quotient, and the product and the sum that follow it, to binary64;
  here they are exact. The uniform weight 1/4 and the shares it gives are the same in
  both. Nothing below is stated about how the camp-proportional weights add up, which
  depends on that rounding.
\<close>

definition weight :: "grid \<Rightarrow> real \<Rightarrow> coord list \<Rightarrow> coord \<Rightarrow> py_error + real" where
  "weight grid total_camp nbrs neighbor =
     (if total_camp > 0
      then (case lookup grid neighbor of Inl e \<Rightarrow> Inl e | Inr state \<Rightarrow> Inr (camp state / total_camp))
      else Inr (1 / real (length nbrs)))"

definition mold_process_site :: "grid \<Rightarrow> grid \<Rightarrow> coord \<Rightarrow> site \<Rightarrow> py_error + grid" where
  "mold_process_site grid next_grid coord state =
     (let total_mold = mold state in
      case ranked_neighbors grid coord of
        Inl e \<Rightarrow> Inl e
      | Inr nbrs \<Rightarrow>
          (case lookup_all grid nbrs of
             Inl e \<Rightarrow> Inl e
           | Inr states \<Rightarrow>
               (let total_camp = sum_list (map camp states) in
                fold_err (\<lambda>neighbor ng.
                    case weight grid total_camp nbrs neighbor of
                      Inl e \<Rightarrow> Inl e
                    | Inr w \<Rightarrow> upd_site neighbor (\<lambda>s. s\<lparr>mold := mold s + total_mold * w\<rparr>) ng)
                  nbrs next_grid)))"

definition food_process_site :: "grid \<Rightarrow> grid \<Rightarrow> coord \<Rightarrow> site \<Rightarrow> py_error + grid" where
  "food_process_site grid next_grid coord state =
     (let food_consumed = food_consumption_rate CONFIG * mold state in
      case upd_site coord
             (\<lambda>s. s\<lparr>camp := camp s + food_consumed * amplification_factor CONFIG\<rparr>) next_grid of
        Inl e \<Rightarrow> Inl e
      | Inr ng \<Rightarrow> upd_site coord (\<lambda>s. s\<lparr>food := food s - food_consumed\<rparr>) ng)"

fun process_site :: "behavior \<Rightarrow> grid \<Rightarrow> grid \<Rightarrow> coord \<Rightarrow> site \<Rightarrow> py_error + grid" where
  "process_site MoldBehavior grid next_grid coord state = mold_process_site grid next_grid coord state"
| "process_site FoodBehavior grid next_grid coord state = food_process_site grid next_grid coord state"
| "process_site CampBehavior grid next_grid coord state = Inl NotImplementedError"

text \<open>\<^verbatim>\<open>Behavior.apply\<close>, inherited by the Mold and Food behaviors.\<close>

definition Behavior_apply :: "behavior \<Rightarrow> grid \<Rightarrow> grid \<Rightarrow> py_error + grid" where
  "Behavior_apply b grid next_grid =
     fold_err (\<lambda>(coord, state) ng.
         if is_process_site b state then process_site b grid ng coord state else Inr ng)
       grid next_grid"

text \<open>
  \<^verbatim>\<open>CampBehavior.apply\<close>: the accumulator \<^verbatim>\<open>new_camp\<close> is a dict of its own, filled
  from every site of the grid, then committed into the next grid.
\<close>

definition accumulate :: "coord \<Rightarrow> real \<Rightarrow> (coord \<times> real) list \<Rightarrow> (coord \<times> real) list" where
  "accumulate neighbor v new_camp =
     (let new_camp' = (if neighbor \<notin> set (map fst new_camp)
                       then AList.update neighbor 0 new_camp else new_camp)
      in case map_of new_camp' neighbor of
           Some a \<Rightarrow> AList.update neighbor (a + v) new_camp'
         | None \<Rightarrow> new_camp')"

definition camp_new_camp :: "grid \<Rightarrow> (coord \<times> real) list" where
  "camp_new_camp grid =
     fold (\<lambda>(coord, state) new_camp.
         let c = camp state * (1 - camp_decay CONFIG)
         in fold (\<lambda>neighbor nc. accumulate neighbor (c * 0.25) nc) (neighbors coord) new_camp)
       grid []"

definition CampBehavior_apply :: "grid \<Rightarrow> grid \<Rightarrow> py_error + grid" where
  "CampBehavior_apply grid next_grid =
     fold_err (\<lambda>(coord, c) ng. upd_site coord (\<lambda>s. s\<lparr>camp := camp s + c\<rparr>) ng)
       (camp_new_camp grid) next_grid"

fun behavior_apply :: "behavior \<Rightarrow> grid \<Rightarrow> grid \<Rightarrow> py_error + grid" where
  "behavior_apply CampBehavior grid next_grid = CampBehavior_apply grid next_grid"
| "behavior_apply b grid next_grid = Behavior_apply b grid next_grid"

subsection \<open>Simulation\<close>

record simulation =
  current_grid :: grid
  history :: "grid list"

definition initialize_grid :: grid where
  "initialize_grid =
     [((0, 0), \<lparr> mold = initial_cells CONFIG, food = food_capacity CONFIG, camp = 0, refractory = 0 \<rparr>)]"

definition Simulation_init :: simulation where
  "Simulation_init = \<lparr> current_grid = initialize_grid, history = [] \<rparr>"

definition behaviors :: "behavior list" where
  "behaviors = [MoldBehavior, FoodBehavior, CampBehavior]"

text \<open>The loop of \<^verbatim>\<open>step\<close> over the behaviors, each reading the same grid.\<close>

definition apply_behaviors :: "grid \<Rightarrow> grid \<Rightarrow> py_error + grid" where
  "apply_behaviors grid next_grid = fold_err (\<lambda>b ng. behavior_apply b grid ng) behaviors next_grid"

text \<open>\<^verbatim>\<open>{coord: {"mold": 0, "food": 0, "camp": 0, "refractory": 0} for coord in grid}\<close>\<close>

definition zeroed :: "grid \<Rightarrow> grid" where
  "zeroed grid = map (\<lambda>coord. (coord, zero_site)) (keys grid)"

text \<open>
  \<^verbatim>\<open>Simulation.step\<close>. The next grid is built from the keys of the current grid before
  \<^verbatim>\<open>expand_grid\<close> changes the current grid in place. An exception leaves the simulation
  with the expanded grid; the result then carries the error and that state.
\<close>

definition step :: "simulation \<Rightarrow> (py_error \<times> simulation) + simulation" where
  "step sim =
     (let next_grid = zeroed (current_grid sim);
          sim1 = sim\<lparr>current_grid := expand_grid (current_grid sim)\<rparr>
      in case apply_behaviors (current_grid sim1) next_grid of
           Inl e \<Rightarrow> Inl (e, sim1)
         | Inr ng \<Rightarrow>
             (case prune_empty_sites ng of
                Inl e \<Rightarrow> Inl (e, sim1)
              | Inr ng' \<Rightarrow> Inr (sim1\<lparr>current_grid := ng'\<rparr>)))"

text \<open>\<^verbatim>\<open>Simulation.run\<close>: \<^verbatim>\<open>range(steps)\<close> is empty for \<open>steps \<le> 0\<close>.\<close>

fun run_loop :: "nat \<Rightarrow> simulation \<Rightarrow> (py_error \<times> simulation) + simulation" where
  "run_loop 0 sim = Inr sim"
| "run_loop (Suc n) sim =
     (case step (sim\<lparr>history := history sim @ [current_grid sim]\<rparr>) of
        Inl e \<Rightarrow> Inl e
      | Inr sim' \<Rightarrow> run_loop n sim')"

definition run :: "int \<Rightarrow> simulation \<Rightarrow> (py_error \<times> simulation) + simulation" where
  "run steps sim = run_loop (nat steps) sim"

subsection \<open>Measures used in the statements\<close>

text \<open>
  What one site sends to each of its four neighbors under the Camp rule: a quarter of its
  decayed camp. What the four neighbors of a coordinate send to it: the shares of those
  neighbors that are keys of the grid.
\<close>

definition camp_share :: "site \<Rightarrow> real" where
  "camp_share state = camp state * (1 - camp_decay CONFIG) * 0.25"

definition camp_inflow :: "grid \<Rightarrow> coord \<Rightarrow> real" where
  "camp_inflow grid coord =
     sum_list (map (\<lambda>n. case map_of grid n of None \<Rightarrow> 0 | Some state \<Rightarrow> camp_share state)
                   (neighbors coord))"

text \<open>
  What the Food behavior adds to the camp of a coordinate: the amplified consumption of the
  site there when that site is active under the Food rule, nothing otherwise.
\<close>

definition food_camp :: "grid \<Rightarrow> coord \<Rightarrow> real" where
  "food_camp grid coord =
     (case map_of grid coord of
        None \<Rightarrow> 0
      | Some state \<Rightarrow>
          if is_process_site FoodBehavior state
          then food_consumption_rate CONFIG * mold state * amplification_factor CONFIG
          else 0)"

subsection \<open>Auxiliary notions for the proofs\<close>

text \<open>One in-place change of a site of the next grid, as a pair of coordinate and change.\<close>

definition upd :: "(coord \<times> (site \<Rightarrow> site)) \<Rightarrow> grid \<Rightarrow> py_error + grid" where
  "upd u ng = upd_site (fst u) (snd u) ng"

text \<open>The two writes of \<^verbatim>\<open>FoodBehavior.process_site\<close> for a source state, as one change.\<close>

definition food_effect :: "site \<Rightarrow> site \<Rightarrow> site" where
  "food_effect state s =
     s\<lparr>camp := camp s + food_consumption_rate CONFIG * mold state * amplification_factor CONFIG,
       food := food s - food_consumption_rate CONFIG * mold state\<rparr>"

definition food_updates :: "grid \<Rightarrow> (coord \<times> (site \<Rightarrow> site)) list" where
  "food_updates grid =
     map (\<lambda>(coord, state). (coord, food_effect state))
         (filter (\<lambda>(coord, state). is_process_site FoodBehavior state) grid)"

text \<open>
  The camp found at a coordinate (0 where the grid has no such key), the
  camp summed over the four neighbors of a coordinate, and the weight that
  \<^verbatim>\<open>MoldBehavior.process_site\<close> gives a neighbor when all four neighbors are keys of the
  grid: its camp over the total when the total is positive, a quarter otherwise.
\<close>

definition camp_at :: "grid \<Rightarrow> coord \<Rightarrow> real" where
  "camp_at grid coord = (case map_of grid coord of None \<Rightarrow> 0 | Some state \<Rightarrow> camp state)"

definition neighbor_camp_total :: "grid \<Rightarrow> coord \<Rightarrow> real" where
  "neighbor_camp_total grid coord = sum_list (map (camp_at grid) (neighbors coord))"

definition share_weight :: "grid \<Rightarrow> coord \<Rightarrow> coord \<Rightarrow> real" where
  "share_weight grid coord neighbor =
     (if neighbor_camp_total grid coord > 0
      then camp_at grid neighbor / neighbor_camp_total grid coord
      else 1 / 4)"

definition add_mold :: "real \<Rightarrow> site \<Rightarrow> site" where
  "add_mold v s = s\<lparr>mold := mold s + v\<rparr>"

definition mold_updates :: "grid \<Rightarrow> coord \<Rightarrow> site \<Rightarrow> coord list \<Rightarrow> (coord \<times> (site \<Rightarrow> site)) list" where
  "mold_updates grid coord state ns =
     map (\<lambda>n. (n, add_mold (mold state * share_weight grid coord n))) ns"

text \<open>A grid with mold at (0,0) and camp 1, 3, 0, 4 at its four neighbors, for the examples.\<close>

definition example_grid :: grid where
  "example_grid =
     [((0, 0), \<lparr>mold = 8, food = 0, camp = 0, refractory = 0\<rparr>),
      ((- 1, 0), \<lparr>mold = 0, food = 0, camp = 1, refractory = 0\<rparr>),
      ((1, 0), \<lparr>mold = 0, food = 0, camp = 3, refractory = 0\<rparr>),
      ((0, - 1), \<lparr>mold = 0, food = 0, camp = 0, refractory = 0\<rparr>),
      ((0, 1), \<lparr>mold = 0, food = 0, camp = 4, refractory = 0\<rparr>)]"

text \<open>
  The value the accumulator of \<^verbatim>\<open>CampBehavior.apply\<close> holds for a coordinate (0 when
  it has no such key), the body of its first loop for one site, and the change its second
  loop makes to a site.
\<close>

definition acc_val :: "(coord \<times> real) list \<Rightarrow> coord \<Rightarrow> real" where
  "acc_val new_camp coord = (case map_of new_camp coord of None \<Rightarrow> 0 | Some a \<Rightarrow> a)"

definition spread :: "coord \<times> site \<Rightarrow> (coord \<times> real) list \<Rightarrow> (coord \<times> real) list" where
  "spread = (\<lambda>(coord, state) new_camp.
         let c = camp state * (1 - camp_decay CONFIG)
         in fold (\<lambda>neighbor nc. accumulate neighbor (c * 0.25) nc) (neighbors coord) new_camp)"

definition add_camp :: "real \<Rightarrow> site \<Rightarrow> site" where
  "add_camp v s = s\<lparr>camp := camp s + v\<rparr>"

section \<open>Basic facts about iteration and the dict accesses\<close>

lemma upd_site_present:
  "map_of g c = Some s \<Longrightarrow> upd_site c f g = Inr (AList.update c (f s) g)"
  by (simp add: upd_site_def)

lemma upd_site_missing:
  assumes "c \<notin> set (keys g)"
  shows "upd_site c f g = Inl KeyError"
proof -
  have "map_of g c = None"
    using assms by (simp add: keys_def map_of_eq_None_iff)
  then show ?thesis by (simp add: upd_site_def)
qed

lemma upd_site_keys: "upd_site c f g = Inr g' \<Longrightarrow> keys g' = keys g"
  by (auto simp: upd_site_def keys_def update_keys map_of_eq_None_iff [symmetric]
      split: option.splits)

lemma upd_site_map_of:
  "upd_site c f g = Inr g' \<Longrightarrow> map_of g' = (map_of g)(c := map_option f (map_of g c))"
  by (auto simp: upd_site_def update_conv' split: option.splits)

lemma in_keys_map_of: "c \<in> set (keys g) \<longleftrightarrow> (\<exists>s. map_of g c = Some s)"
  by (metis keys_def map_of_eq_None_iff not_Some_eq set_map)

section \<open>Grid utilities\<close>

lemma fold_update_keys:
  "set (keys (fold (\<lambda>cell g. AList.update cell z g) cs g)) = set (keys g) \<union> set cs"
proof (induction cs arbitrary: g)
  case Nil
  show ?case by simp
next
  case (Cons c cs)
  have "set (keys (AList.update c z g)) = insert c (set (keys g))"
    using dom_update [of c z g] by (simp add: keys_def)
  with Cons show ?case by simp
qed

lemma fold_update_map_of:
  "map_of (fold (\<lambda>cell g. AList.update cell z g) cs g) k =
     (if k \<in> set cs then Some z else map_of g k)"
  by (induction cs arbitrary: g) (auto simp: update_conv')

lemma set_new_cells:
  "set (new_cells grid) = (\<Union>c\<in>set (keys grid). set (neighbors c)) - set (keys grid)"
  by (auto simp: new_cells_def)

lemma del_key_Inr: "del_key k g = Inr g' \<longleftrightarrow> k \<in> set (keys g) \<and> g' = AList.delete k g"
  by (auto simp: del_key_def)

lemma fold_err_del_key:
  "fold_err del_key ks g = Inr g' \<Longrightarrow> g' = filter (\<lambda>(k, s). k \<notin> set ks) g"
proof (induction ks arbitrary: g)
  case Nil
  then show ?case by simp
next
  case (Cons k ks)
  from Cons.prems have r: "fold_err del_key ks (AList.delete k g) = Inr g'"
    by (auto simp: del_key_Inr split: sum.splits)
  have "g' = filter (\<lambda>(k', s). k' \<notin> set ks) (AList.delete k g)"
    using Cons.IH [OF r] .
  then show ?case
    by (simp add: AList.delete_eq) (rule filter_cong, auto)
qed

lemma fold_err_del_key_total:
  "distinct ks \<Longrightarrow> set ks \<subseteq> set (keys g) \<Longrightarrow> \<exists>g'. fold_err del_key ks g = Inr g'"
proof (induction ks arbitrary: g)
  case Nil
  show ?case by simp
next
  case (Cons k ks)
  have d: "del_key k g = Inr (AList.delete k g)"
    using Cons.prems by (simp add: del_key_def)
  have "set ks \<subseteq> set (keys (AList.delete k g))"
    using Cons.prems by (auto simp: keys_def delete_keys)
  with Cons.IH [of "AList.delete k g"] Cons.prems d show ?case by simp
qed

lemma prune_empty_sites_result:
  assumes "prune_empty_sites grid = Inr g'"
  shows "g' = filter (\<lambda>(k, s). k \<notin> fst ` {(c, st) \<in> set grid. all_zero st}) grid"
proof -
  have "g' = filter (\<lambda>(k, s). k \<notin> set (map fst (filter (\<lambda>(coord, state). all_zero state) grid))) grid"
    using assms fold_err_del_key unfolding prune_empty_sites_def Let_def by blast
  moreover have "set (map fst (filter (\<lambda>(coord, state). all_zero state) grid))
      = fst ` {(c, st) \<in> set grid. all_zero st}"
    by auto
  ultimately show ?thesis by simp
qed

lemma prune_empty_sites_no_zero:
  assumes "prune_empty_sites grid = Inr g'" and "(c, st) \<in> set g'"
  shows "\<not> all_zero st"
proof
  assume z: "all_zero st"
  from prune_empty_sites_result [OF assms(1)] assms(2)
  have "(c, st) \<in> set grid" and "c \<notin> fst ` {(c, st) \<in> set grid. all_zero st}"
    by auto
  with z show False by force
qed

lemma prune_empty_sites_distinct:
  assumes "distinct (keys grid)"
  shows "prune_empty_sites grid = Inr (filter (\<lambda>(coord, state). \<not> all_zero state) grid)"
proof -
  let ?ks = "map fst (filter (\<lambda>(coord, state). all_zero state) grid)"
  have "distinct ?ks"
    using assms by (simp add: keys_def distinct_map_filter)
  moreover have "set ?ks \<subseteq> set (keys grid)"
    by (auto simp: keys_def)
  ultimately obtain g' where g': "prune_empty_sites grid = Inr g'"
    using fold_err_del_key_total unfolding prune_empty_sites_def Let_def by blast
  have "g' = filter (\<lambda>(k, s). k \<notin> fst ` {(c, st) \<in> set grid. all_zero st}) grid"
    using prune_empty_sites_result [OF g'] .
  also have "\<dots> = filter (\<lambda>(coord, state). \<not> all_zero state) grid"
  proof (rule filter_cong [OF refl])
    fix x assume x: "x \<in> set grid"
    obtain k s where ks: "x = (k, s)" by (cases x)
    have "k \<in> fst ` {(c, st) \<in> set grid. all_zero st} \<longleftrightarrow> all_zero s"
    proof
      assume "k \<in> fst ` {(c, st) \<in> set grid. all_zero st}"
      then obtain s' where s': "(k, s') \<in> set grid" "all_zero s'" by auto
      have "s' = s"
        using assms x ks s'(1) by (metis keys_def eq_key_imp_eq_value)
      with s' show "all_zero s" by simp
    next
      assume "all_zero s"
      with x ks show "k \<in> fst ` {(c, st) \<in> set grid. all_zero st}" by force
    qed
    then show "(case x of (k, s) \<Rightarrow> k \<notin> fst ` {(c, st) \<in> set grid. all_zero st})
      = (case x of (coord, state) \<Rightarrow> \<not> all_zero state)"
      by (simp add: ks)
  qed
  finally show ?thesis using g' by simp
qed

section \<open>Sequences of in-place changes\<close>

lemma fold_err_map: "fold_err f (map h xs) s = fold_err (\<lambda>x. f (h x)) xs s"
  by (induction xs arbitrary: s) (auto split: sum.splits)

lemma fold_err_filter:
  "fold_err (\<lambda>x s. if P x then f x s else Inr s) xs s = fold_err f (filter P xs) s"
  by (induction xs arbitrary: s) (auto split: sum.splits)

lemma fold_err_append:
  "fold_err f (xs @ ys) s = (case fold_err f xs s of Inl e \<Rightarrow> Inl e | Inr s' \<Rightarrow> fold_err f ys s')"
  by (induction xs arbitrary: s) (auto split: sum.splits)

lemma fold_err_cong:
  "(\<And>x s. x \<in> set xs \<Longrightarrow> f x s = g x s) \<Longrightarrow> fold_err f xs s = fold_err g xs s"
  by (induction xs arbitrary: s) (auto split: sum.splits)

lemma upd_keys: "upd u g = Inr g' \<Longrightarrow> keys g' = keys g"
  unfolding upd_def by (rule upd_site_keys)

lemma fold_upd_keys: "fold_err upd us g = Inr g' \<Longrightarrow> keys g' = keys g"
proof (induction us arbitrary: g)
  case Nil then show ?case by simp
next
  case (Cons u us)
  then obtain g1 where "upd u g = Inr g1" "fold_err upd us g1 = Inr g'"
    by (auto split: sum.splits)
  with Cons.IH upd_keys show ?case by metis
qed

lemma fold_upd_missing:
  "\<not> fst ` set us \<subseteq> set (keys g) \<Longrightarrow> fold_err upd us g = Inl KeyError"
proof (induction us arbitrary: g)
  case Nil then show ?case by simp
next
  case (Cons u us)
  show ?case
  proof (cases "fst u \<in> set (keys g)")
    case False
    then show ?thesis by (simp add: upd_def upd_site_missing)
  next
    case True
    then obtain s where s: "map_of g (fst u) = Some s" by (auto simp: in_keys_map_of)
    let ?g1 = "AList.update (fst u) (snd u s) g"
    have u: "upd u g = Inr ?g1" by (simp add: upd_def upd_site_present [OF s])
    have "keys ?g1 = keys g" using upd_keys [OF u] .
    with Cons.prems True have "\<not> fst ` set us \<subseteq> set (keys ?g1)" by auto
    from Cons.IH [OF this] u show ?thesis by simp
  qed
qed

lemma fold_upd_map_of:
  assumes "distinct (map fst us)" and "fst ` set us \<subseteq> set (keys g)"
  shows "\<exists>g'. fold_err upd us g = Inr g' \<and> keys g' = keys g \<and>
           (\<forall>c. map_of g' c = (case map_of us c of None \<Rightarrow> map_of g c
                                | Some f \<Rightarrow> map_option f (map_of g c)))"
  using assms
proof (induction us arbitrary: g)
  case Nil then show ?case by simp
next
  case (Cons u us)
  obtain k f where kf: "u = (k, f)" by (cases u)
  from Cons.prems kf obtain s where s: "map_of g k = Some s" by (auto simp: in_keys_map_of)
  let ?g1 = "AList.update k (f s) g"
  have u: "upd u g = Inr ?g1" by (simp add: kf upd_def upd_site_present [OF s])
  have k1: "keys ?g1 = keys g" using upd_keys [OF u] .
  have "distinct (map fst us)" "fst ` set us \<subseteq> set (keys ?g1)"
    using Cons.prems k1 by auto
  from Cons.IH [OF this] obtain g' where g': "fold_err upd us ?g1 = Inr g'" "keys g' = keys ?g1"
    "\<And>c. map_of g' c = (case map_of us c of None \<Rightarrow> map_of ?g1 c
                                | Some f \<Rightarrow> map_option f (map_of ?g1 c))"
    by blast
  have notin: "map_of us k = None"
    using Cons.prems(1) kf by (simp add: map_of_eq_None_iff)
  have "\<And>c. map_of g' c = (case map_of (u # us) c of None \<Rightarrow> map_of g c
                                | Some f \<Rightarrow> map_option f (map_of g c))"
    using g'(3) notin s by (auto simp: kf update_conv' split: option.splits)
  with g'(1,2) u k1 show ?case by simp
qed

section \<open>The Food behavior\<close>

lemma food_process_site_upd:
  "food_process_site grid ng c state = upd_site c (food_effect state) ng"
proof (cases "map_of ng c")
  case None
  then show ?thesis by (simp add: food_process_site_def upd_site_def Let_def)
next
  case (Some s)
  then show ?thesis
    by (simp add: food_process_site_def upd_site_def update_conv' food_effect_def Let_def)
qed

lemma food_apply_upd:
  "Behavior_apply FoodBehavior grid next_grid = fold_err upd (food_updates grid) next_grid"
proof -
  have "Behavior_apply FoodBehavior grid next_grid =
      fold_err (\<lambda>x ng. if (\<lambda>(coord, state). is_process_site FoodBehavior state) x
                        then upd (case x of (coord, state) \<Rightarrow> (coord, food_effect state)) ng
                        else Inr ng) grid next_grid"
    unfolding Behavior_apply_def
    by (rule fold_err_cong) (simp add: food_process_site_upd upd_def case_prod_unfold)
  also have "\<dots> = fold_err upd (food_updates grid) next_grid"
    unfolding food_updates_def fold_err_map by (rule fold_err_filter)
  finally show ?thesis .
qed

lemma map_of_food_updates:
  "distinct (keys grid) \<Longrightarrow> map_of grid c = Some state \<Longrightarrow>
     map_of (food_updates grid) c =
       (if is_process_site FoodBehavior state then Some (food_effect state) else None)"
proof (induction grid)
  case Nil then show ?case by simp
next
  case (Cons a grid)
  obtain k s where a: "a = (k, s)" by (cases a)
  show ?case
  proof (cases "k = c")
    case True
    with Cons.prems a have s: "s = state" by simp
    have "c \<notin> fst ` set (food_updates grid)"
      using Cons.prems(1) a True by (force simp: food_updates_def keys_def)
    then have "map_of (food_updates grid) c = None"
      by (simp add: map_of_eq_None_iff)
    then show ?thesis using a True s by (simp add: food_updates_def)
  next
    case False
    with Cons a show ?thesis by (auto simp: food_updates_def keys_def)
  qed
qed

lemma distinct_food_updates: "distinct (keys grid) \<Longrightarrow> distinct (map fst (food_updates grid))"
proof -
  have "map fst (food_updates grid) = map fst (filter (\<lambda>(coord, state). is_process_site FoodBehavior state) grid)"
    by (simp add: food_updates_def case_prod_unfold comp_def)
  then show "distinct (keys grid) \<Longrightarrow> distinct (map fst (food_updates grid))"
    by (simp add: keys_def distinct_map_filter)
qed

section \<open>The Mold behavior\<close>

lemma distinct_neighbors: "distinct (neighbors c)"
  by (cases c) (simp add: neighbors_def)

lemma length_neighbors: "length (neighbors c) = 4"
  by (cases c) (simp add: neighbors_def)

lemma lookup_present: "c \<in> set (keys g) \<Longrightarrow> lookup g c = Inr (the (map_of g c))"
  by (auto simp: lookup_def in_keys_map_of)

lemma lookup_all_present:
  "set cs \<subseteq> set (keys g) \<Longrightarrow> lookup_all g cs = Inr (map (\<lambda>c. the (map_of g c)) cs)"
  by (induction cs) (simp_all add: lookup_present)

lemma camp_at_present: "c \<in> set (keys g) \<Longrightarrow> camp (the (map_of g c)) = camp_at g c"
  by (auto simp: camp_at_def in_keys_map_of)

lemma ranked_neighbors_perm:
  assumes "set (neighbors coord) \<subseteq> set (keys g)"
  shows "\<exists>ns. ranked_neighbors g coord = Inr ns \<and> distinct ns
           \<and> set ns = set (neighbors coord) \<and> length ns = 4"
proof -
  let ?xs = "zip (neighbors coord) (map (\<lambda>c. the (map_of g c)) (neighbors coord))"
  let ?k = "\<lambda>(neighbor, state). (- camp state, mold state)"
  let ?ns = "map fst (sort_key ?k ?xs)"
  have r: "ranked_neighbors g coord = Inr ?ns"
    by (simp add: ranked_neighbors_def lookup_all_present [OF assms])
  have fx: "map fst ?xs = neighbors coord" by simp
  have "distinct (map fst ?xs)" by (simp only: fx distinct_neighbors)
  then have "distinct ?xs \<and> inj_on fst (set ?xs)" by (simp only: distinct_map)
  then have "distinct (sort_key ?k ?xs) \<and> inj_on fst (set (sort_key ?k ?xs))" by simp
  then have d: "distinct ?ns" by (simp only: distinct_map)
  have "set ?ns = fst ` set (sort_key ?k ?xs)" by (simp only: set_map)
  also have "\<dots> = fst ` set ?xs" by (simp only: set_sort)
  also have "\<dots> = set (map fst ?xs)" by (simp only: set_map)
  finally have s: "set ?ns = set (neighbors coord)" by (simp only: fx)
  have l: "length ?ns = 4" by (simp add: length_neighbors)
  from r d s l show ?thesis by blast
qed

lemma sum_list_perm:
  "distinct xs \<Longrightarrow> distinct ys \<Longrightarrow> set xs = set ys \<Longrightarrow>
     sum_list (map f xs) = sum_list (map (f :: 'a \<Rightarrow> real) ys)"
  by (simp add: sum_list_distinct_conv_sum_set)

lemma mold_process_site_upd:
  assumes g: "set (neighbors coord) \<subseteq> set (keys grid)"
    and r: "ranked_neighbors grid coord = Inr ns"
    and d: "distinct ns" and s: "set ns = set (neighbors coord)" and l: "length ns = 4"
  shows "mold_process_site grid next_grid coord state
           = fold_err upd (mold_updates grid coord state ns) next_grid"
proof -
  have sub: "set ns \<subseteq> set (keys grid)" using g s by simp
  have tc: "sum_list (map camp (map (\<lambda>c. the (map_of grid c)) ns)) = neighbor_camp_total grid coord"
  proof -
    have "sum_list (map camp (map (\<lambda>c. the (map_of grid c)) ns)) = sum_list (map (camp_at grid) ns)"
    proof -
      have "\<And>n. n \<in> set ns \<Longrightarrow> camp (the (map_of grid n)) = camp_at grid n"
        using sub camp_at_present by blast
      then have "map (\<lambda>c. camp (the (map_of grid c))) ns = map (camp_at grid) ns"
        by (intro map_cong refl)
      then show ?thesis by (simp only: map_map comp_def)
    qed
    also have "\<dots> = neighbor_camp_total grid coord"
      unfolding neighbor_camp_total_def
      by (rule sum_list_perm [OF d distinct_neighbors s])
    finally show ?thesis .
  qed
  have w: "\<And>n. n \<in> set ns \<Longrightarrow>
      weight grid (neighbor_camp_total grid coord) ns n = Inr (share_weight grid coord n)"
    using sub l by (auto simp: weight_def share_weight_def lookup_present camp_at_present)
  have "mold_process_site grid next_grid coord state =
      fold_err (\<lambda>neighbor ng.
          case weight grid (neighbor_camp_total grid coord) ns neighbor of
            Inl e \<Rightarrow> Inl e
          | Inr w \<Rightarrow> upd_site neighbor (\<lambda>s. s\<lparr>mold := mold s + mold state * w\<rparr>) ng) ns next_grid"
    using tc by (simp add: mold_process_site_def r lookup_all_present [OF sub] Let_def)
  also have "\<dots> = fold_err (\<lambda>n. upd (n, add_mold (mold state * share_weight grid coord n))) ns next_grid"
    by (rule fold_err_cong) (simp add: w upd_def add_mold_def [abs_def])
  also have "\<dots> = fold_err upd (mold_updates grid coord state ns) next_grid"
    by (simp add: mold_updates_def fold_err_map)
  finally show ?thesis .
qed

lemma map_of_mold_updates:
  "map_of (mold_updates grid coord state ns) c =
     (if c \<in> set ns then Some (add_mold (mold state * share_weight grid coord c)) else None)"
  by (simp add: mold_updates_def map_of_map_restrict restrict_map_def)

lemma keys_mold_updates: "map fst (mold_updates grid coord state ns) = ns"
  by (simp add: mold_updates_def comp_def)

lemma mold_process_site_result:
  assumes g: "set (neighbors coord) \<subseteq> set (keys grid)"
    and n: "set (neighbors coord) \<subseteq> set (keys next_grid)"
  shows "\<exists>ng. mold_process_site grid next_grid coord state = Inr ng \<and> keys ng = keys next_grid
           \<and> (\<forall>c. map_of ng c =
                 (if c \<in> set (neighbors coord)
                  then map_option (add_mold (mold state * share_weight grid coord c)) (map_of next_grid c)
                  else map_of next_grid c))"
proof -
  from ranked_neighbors_perm [OF g] obtain ns where ns: "ranked_neighbors grid coord = Inr ns"
    "distinct ns" "set ns = set (neighbors coord)" "length ns = 4"
    by blast
  let ?us = "mold_updates grid coord state ns"
  have eq: "mold_process_site grid next_grid coord state = fold_err upd ?us next_grid"
    by (rule mold_process_site_upd [OF g ns])
  have d: "distinct (map fst ?us)" by (simp only: keys_mold_updates ns(2))
  have "fst ` set ?us = set (map fst ?us)" by simp
  then have s: "fst ` set ?us \<subseteq> set (keys next_grid)"
    using n ns(3) by (simp only: keys_mold_updates)
  from fold_upd_map_of [OF d s] obtain ng where ng: "fold_err upd ?us next_grid = Inr ng"
    "keys ng = keys next_grid"
    "\<And>c. map_of ng c = (case map_of ?us c of None \<Rightarrow> map_of next_grid c
                          | Some f \<Rightarrow> map_option f (map_of next_grid c))"
    by blast
  have "\<And>c. map_of ng c =
                 (if c \<in> set (neighbors coord)
                  then map_option (add_mold (mold state * share_weight grid coord c)) (map_of next_grid c)
                  else map_of next_grid c)"
    unfolding ng(3) map_of_mold_updates ns(3) by simp
  with eq ng(1,2) show ?thesis by simp
qed

section \<open>The Camp behavior\<close>

lemma accumulate_map_of:
  "map_of (accumulate n v nc) = (map_of nc)(n \<mapsto> acc_val nc n + v)"
proof (cases "n \<in> set (map fst nc)")
  case True
  then obtain a where a: "map_of nc n = Some a"
    by (metis map_of_eq_None_iff not_Some_eq set_map)
  with True show ?thesis
    by (simp add: accumulate_def acc_val_def update_conv')
next
  case False
  then have "map_of nc n = None" by (simp add: map_of_eq_None_iff)
  with False show ?thesis
    by (simp add: accumulate_def acc_val_def update_conv')
qed

lemma accumulate_distinct:
  "distinct (map fst nc) \<Longrightarrow> distinct (map fst (accumulate n v nc))"
  by (auto simp: accumulate_def Let_def distinct_update split: option.splits)

lemma accumulate_keys: "fst ` set (accumulate n v nc) = insert n (fst ` set nc)"
proof -
  have "dom (map_of (accumulate n v nc)) = insert n (dom (map_of nc))"
    by (simp add: accumulate_map_of)
  then show ?thesis by (simp add: dom_map_of_conv_image_fst)
qed

lemma accumulate_val:
  "acc_val (accumulate n v nc) k = acc_val nc k + (if n = k then v else 0)"
  by (simp add: acc_val_def accumulate_map_of)

lemma spread_facts:
  "distinct (map fst nc) \<Longrightarrow>
     distinct (map fst (fold (\<lambda>neighbor nc. accumulate neighbor v nc) ns nc))
   \<and> fst ` set (fold (\<lambda>neighbor nc. accumulate neighbor v nc) ns nc) = fst ` set nc \<union> set ns
   \<and> acc_val (fold (\<lambda>neighbor nc. accumulate neighbor v nc) ns nc) k
       = acc_val nc k + sum_list (map (\<lambda>n. if n = k then v else 0) ns)"
proof (induction ns arbitrary: nc)
  case Nil
  then show ?case by simp
next
  case (Cons n ns)
  have "distinct (map fst (accumulate n v nc))"
    using Cons.prems by (rule accumulate_distinct)
  from Cons.IH [OF this] show ?case
    by (simp add: accumulate_keys accumulate_val)
qed

lemma neighbors_sym: "k \<in> set (neighbors c) \<longleftrightarrow> c \<in> set (neighbors k)"
  by (cases k, cases c) (auto simp: neighbors_def)

lemma not_own_neighbor: "k \<notin> set (neighbors k)"
  by (cases k) (simp add: neighbors_def)

lemma sum_list_delta:
  "distinct ns \<Longrightarrow> sum_list (map (\<lambda>n. if n = k then (v :: real) else 0) ns) = (if k \<in> set ns then v else 0)"
  by (induction ns) auto

lemma spread_eq:
  "spread (c, s) nc = fold (\<lambda>neighbor nc. accumulate neighbor (camp_share s) nc) (neighbors c) nc"
  by (simp add: spread_def camp_share_def Let_def)

lemma camp_new_camp_spread: "camp_new_camp grid = fold spread grid []"
  by (simp add: camp_new_camp_def spread_def [abs_def])

lemma gather_facts:
  "distinct (map fst nc) \<Longrightarrow>
     distinct (map fst (fold spread items nc))
   \<and> fst ` set (fold spread items nc) = fst ` set nc \<union> (\<Union>c\<in>set (keys items). set (neighbors c))
   \<and> acc_val (fold spread items nc) k
       = acc_val nc k
         + sum_list (map (\<lambda>(c, s). if k \<in> set (neighbors c) then camp_share s else 0) items)"
proof (induction items arbitrary: nc)
  case Nil
  then show ?case by (simp add: keys_def)
next
  case (Cons a items)
  obtain c s where a: "a = (c, s)" by (cases a)
  from spread_facts [OF Cons.prems, of "camp_share s" "neighbors c" k]
  have d1: "distinct (map fst (spread (c, s) nc))"
    and k1: "fst ` set (spread (c, s) nc) = fst ` set nc \<union> set (neighbors c)"
    and v1: "acc_val (spread (c, s) nc) k
               = acc_val nc k + (if k \<in> set (neighbors c) then camp_share s else 0)"
    by (simp_all add: spread_eq sum_list_delta distinct_neighbors)
  from Cons.IH [OF d1] show ?case
    by (simp add: a k1 v1 keys_def Un_assoc add.assoc)
qed

lemma new_camp_facts:
  "distinct (map fst (camp_new_camp grid))"
  "fst ` set (camp_new_camp grid) = (\<Union>c\<in>set (keys grid). set (neighbors c))"
  "acc_val (camp_new_camp grid) k
     = sum_list (map (\<lambda>(c, s). if k \<in> set (neighbors c) then camp_share s else 0) grid)"
  using gather_facts [of "[]" grid k]
  by (simp_all add: camp_new_camp_spread acc_val_def)

lemma sum_list_pick:
  "distinct ns \<Longrightarrow> g c = 0 \<Longrightarrow>
     sum_list (map (\<lambda>n. if n = c then (a :: real) else g n) ns)
       = (if c \<in> set ns then a else 0) + sum_list (map g ns)"
  by (induction ns) auto

lemma inflow_double_count:
  "distinct (keys grid) \<Longrightarrow>
     sum_list (map (\<lambda>(c, s). if k \<in> set (neighbors c) then camp_share s else 0) grid)
       = camp_inflow grid k"
proof (induction grid)
  case Nil
  show ?case by (simp add: camp_inflow_def)
next
  case (Cons a grid)
  obtain c s where a: "a = (c, s)" by (cases a)
  let ?g = "\<lambda>n. case map_of grid n of None \<Rightarrow> 0 | Some state \<Rightarrow> camp_share state"
  from Cons.prems a have "map_of grid c = None"
    by (simp add: keys_def map_of_eq_None_iff)
  then have g0: "?g c = 0" by simp
  have "camp_inflow (a # grid) k
      = sum_list (map (\<lambda>n. if n = c then camp_share s else ?g n) (neighbors k))"
    unfolding camp_inflow_def a
    by (rule arg_cong [where f = sum_list], rule map_cong) auto
  also have "\<dots> = (if c \<in> set (neighbors k) then camp_share s else 0) + sum_list (map ?g (neighbors k))"
    using sum_list_pick [of "neighbors k" ?g c "camp_share s"] g0 by (simp add: distinct_neighbors)
  also have "sum_list (map ?g (neighbors k)) = camp_inflow grid k"
    by (simp add: camp_inflow_def)
  finally show ?case
    using Cons a neighbors_sym [of k c] by (simp add: keys_def)
qed

lemma camp_apply_upd:
  "CampBehavior_apply grid next_grid
     = fold_err upd (map (\<lambda>(c, v). (c, add_camp v)) (camp_new_camp grid)) next_grid"
  unfolding CampBehavior_apply_def fold_err_map
  by (rule fold_err_cong) (simp add: upd_def add_camp_def [abs_def] case_prod_unfold)

lemma map_of_camp_updates:
  "map_of (map (\<lambda>(c, v). (c, add_camp v)) nc) k = map_option add_camp (map_of nc k)"
  by (induction nc) auto

lemma camp_inflow_zero:
  assumes "\<forall>n\<in>set (neighbors k). camp_at grid n = 0"
  shows "camp_inflow grid k = 0"
proof -
  have "\<And>n. n \<in> set (neighbors k) \<Longrightarrow>
      (case map_of grid n of None \<Rightarrow> 0 | Some state \<Rightarrow> camp_share state) = 0"
    using assms by (auto simp: camp_at_def camp_share_def split: option.splits)
  then have "map (\<lambda>n. case map_of grid n of None \<Rightarrow> 0 | Some state \<Rightarrow> camp_share state) (neighbors k)
      = map (\<lambda>n. 0) (neighbors k)"
    by (intro map_cong refl)
  then have "camp_inflow grid k = sum_list (map (\<lambda>n. 0) (neighbors k))"
    by (simp only: camp_inflow_def)
  then show ?thesis by simp
qed

lemma camp_inflow_ignores_own:
  "camp_inflow (AList.update k s' grid) k = camp_inflow grid k"
proof -
  have "\<And>n. n \<in> set (neighbors k) \<Longrightarrow> map_of (AList.update k s' grid) n = map_of grid n"
    using not_own_neighbor [of k] by (auto simp: update_conv')
  then have "map (\<lambda>n. case map_of (AList.update k s' grid) n of None \<Rightarrow> 0
                      | Some state \<Rightarrow> camp_share state) (neighbors k)
      = map (\<lambda>n. case map_of grid n of None \<Rightarrow> 0 | Some state \<Rightarrow> camp_share state) (neighbors k)"
    by (intro map_cong refl) simp
  then show ?thesis by (simp only: camp_inflow_def)
qed

lemma camp_apply_result:
  assumes "distinct (keys grid)"
    and "(\<Union>c\<in>set (keys grid). set (neighbors c)) \<subseteq> set (keys next_grid)"
  shows "\<exists>ng. behavior_apply CampBehavior grid next_grid = Inr ng
           \<and> keys ng = keys next_grid
           \<and> (\<forall>k. map_of ng k
                    = map_option (\<lambda>s. s\<lparr>camp := camp s + camp_inflow grid k\<rparr>) (map_of next_grid k))"
proof -
  let ?us = "map (\<lambda>(c, v). (c, add_camp v)) (camp_new_camp grid)"
  have fs: "map fst ?us = map fst (camp_new_camp grid)"
    by (simp add: case_prod_unfold comp_def)
  have d: "distinct (map fst ?us)"
    by (simp only: fs new_camp_facts(1))
  have "fst ` set ?us = set (map fst ?us)" by (rule set_map [symmetric])
  also have "\<dots> = fst ` set (camp_new_camp grid)" by (simp only: fs set_map)
  finally have s: "fst ` set ?us \<subseteq> set (keys next_grid)"
    using assms(2) by (simp only: new_camp_facts(2))
  from fold_upd_map_of [OF d s] obtain ng where ng: "fold_err upd ?us next_grid = Inr ng"
    "keys ng = keys next_grid"
    "\<And>k. map_of ng k = (case map_of ?us k of None \<Rightarrow> map_of next_grid k
                          | Some f \<Rightarrow> map_option f (map_of next_grid k))"
    by blast
  have v: "\<And>k. acc_val (camp_new_camp grid) k = camp_inflow grid k"
    by (simp only: new_camp_facts(3) inflow_double_count [OF assms(1)])
  have "\<And>k. map_of ng k = map_option (add_camp (camp_inflow grid k)) (map_of next_grid k)"
  proof -
    fix k
    show "map_of ng k = map_option (add_camp (camp_inflow grid k)) (map_of next_grid k)"
    proof (cases "map_of (camp_new_camp grid) k")
      case None
      then have "camp_inflow grid k = 0" using v [of k] by (simp add: acc_val_def)
      then have "add_camp (camp_inflow grid k) = (\<lambda>s. s)" by (simp add: add_camp_def [abs_def])
      with None show ?thesis
        by (simp add: ng(3) map_of_camp_updates option.map_ident)
    next
      case (Some a)
      then have "camp_inflow grid k = a" using v [of k] by (simp add: acc_val_def)
      with Some show ?thesis
        by (simp add: ng(3) map_of_camp_updates)
    qed
  qed
  with ng(1,2) show ?thesis
    by (simp add: camp_apply_upd add_camp_def [abs_def])
qed

section \<open>The camp after the three behaviors\<close>

lemma mold_apply_camp:
  assumes "\<forall>(c, s)\<in>set items. mold s > 0 \<longrightarrow>
             set (neighbors c) \<subseteq> set (keys grid) \<and> set (neighbors c) \<subseteq> set (keys next_grid)"
  shows "\<exists>ng. fold_err (\<lambda>(coord, state) ng.
                  if is_process_site MoldBehavior state
                  then process_site MoldBehavior grid ng coord state else Inr ng) items next_grid = Inr ng
           \<and> keys ng = keys next_grid
           \<and> (\<forall>k. map_option camp (map_of ng k) = map_option camp (map_of next_grid k))"
  using assms
proof (induction items arbitrary: next_grid)
  case Nil
  show ?case by simp
next
  case (Cons a items)
  obtain c s where a: "a = (c, s)" by (cases a)
  show ?case
  proof (cases "mold s > 0")
    case True
    with Cons.prems a have "set (neighbors c) \<subseteq> set (keys grid)"
      "set (neighbors c) \<subseteq> set (keys next_grid)" by auto
    from mold_process_site_result [OF this, of s] obtain n1 where n1:
      "mold_process_site grid next_grid c s = Inr n1" "keys n1 = keys next_grid"
      "\<And>k. map_of n1 k =
          (if k \<in> set (neighbors c)
           then map_option (add_mold (mold s * share_weight grid c k)) (map_of next_grid k)
           else map_of next_grid k)"
      by blast
    have c1: "\<And>k. map_option camp (map_of n1 k) = map_option camp (map_of next_grid k)"
      by (simp add: n1(3) option.map_comp comp_def add_mold_def)
    have "\<forall>(c, s)\<in>set items. mold s > 0 \<longrightarrow>
             set (neighbors c) \<subseteq> set (keys grid) \<and> set (neighbors c) \<subseteq> set (keys n1)"
      using Cons.prems n1(2) by simp
    from Cons.IH [OF this] obtain ng where
      "fold_err (\<lambda>(coord, state) ng.
                  if is_process_site MoldBehavior state
                  then process_site MoldBehavior grid ng coord state else Inr ng) items n1 = Inr ng"
      "keys ng = keys n1"
      "\<And>k. map_option camp (map_of ng k) = map_option camp (map_of n1 k)"
      by blast
    with n1(1,2) c1 True a show ?thesis by simp
  next
    case False
    have "\<forall>(c, s)\<in>set items. mold s > 0 \<longrightarrow>
             set (neighbors c) \<subseteq> set (keys grid) \<and> set (neighbors c) \<subseteq> set (keys next_grid)"
      using Cons.prems by simp
    from Cons.IH [OF this] False a show ?thesis by simp
  qed
qed

lemma map_of_food_updates_absent:
  "map_of grid c = None \<Longrightarrow> map_of (food_updates grid) c = None"
  by (force simp: map_of_eq_None_iff food_updates_def)

lemma food_apply_camp:
  assumes d: "distinct (keys grid)" and k: "set (keys grid) \<subseteq> set (keys next_grid)"
  shows "\<exists>ng. Behavior_apply FoodBehavior grid next_grid = Inr ng \<and> keys ng = keys next_grid
           \<and> (\<forall>k. map_option camp (map_of ng k)
                    = map_option (\<lambda>s. camp s + food_camp grid k) (map_of next_grid k))"
proof -
  have "fst ` set (food_updates grid) \<subseteq> fst ` set grid"
    by (force simp: food_updates_def)
  then have sub: "fst ` set (food_updates grid) \<subseteq> set (keys next_grid)"
    using k by (simp add: keys_def)
  from fold_upd_map_of [OF distinct_food_updates [OF d] sub]
  obtain ng where ng: "fold_err upd (food_updates grid) next_grid = Inr ng"
    "keys ng = keys next_grid"
    "\<And>c. map_of ng c = (case map_of (food_updates grid) c of None \<Rightarrow> map_of next_grid c
                                | Some f \<Rightarrow> map_option f (map_of next_grid c))"
    by blast
  have "\<And>c. map_option camp (map_of ng c)
                    = map_option (\<lambda>s. camp s + food_camp grid c) (map_of next_grid c)"
  proof -
    fix c
    show "map_option camp (map_of ng c)
            = map_option (\<lambda>s. camp s + food_camp grid c) (map_of next_grid c)"
    proof (cases "map_of grid c")
      case None
      then show ?thesis
        by (simp add: ng(3) map_of_food_updates_absent food_camp_def)
    next
      case (Some s)
      then show ?thesis
        by (simp add: ng(3) map_of_food_updates [OF d Some] food_camp_def food_effect_def
            option.map_comp comp_def)
    qed
  qed
  with ng(1,2) show ?thesis by (simp add: food_apply_upd)
qed

lemma behaviors_camp:
  assumes d: "distinct (keys grid)"
    and n: "(\<Union>c\<in>set (keys grid). set (neighbors c)) \<subseteq> set (keys next_grid)"
    and k: "set (keys grid) \<subseteq> set (keys next_grid)"
    and m: "\<forall>(c, s)\<in>set grid. mold s > 0 \<longrightarrow> set (neighbors c) \<subseteq> set (keys grid)"
  shows "\<exists>ng. apply_behaviors grid next_grid = Inr ng \<and> keys ng = keys next_grid
           \<and> (\<forall>k. map_option camp (map_of ng k)
                    = map_option (\<lambda>s. camp s + food_camp grid k + camp_inflow grid k)
                        (map_of next_grid k))"
proof -
  have "\<forall>(c, s)\<in>set grid. mold s > 0 \<longrightarrow>
             set (neighbors c) \<subseteq> set (keys grid) \<and> set (neighbors c) \<subseteq> set (keys next_grid)"
    using m n by (fastforce simp: keys_def)
  from mold_apply_camp [OF this] obtain n1 where n1:
    "Behavior_apply MoldBehavior grid next_grid = Inr n1" "keys n1 = keys next_grid"
    "\<And>k. map_option camp (map_of n1 k) = map_option camp (map_of next_grid k)"
    unfolding Behavior_apply_def by blast
  from food_apply_camp [OF d, of n1] k n1(2) obtain n2 where n2:
    "Behavior_apply FoodBehavior grid n1 = Inr n2" "keys n2 = keys n1"
    "\<And>k. map_option camp (map_of n2 k) = map_option (\<lambda>s. camp s + food_camp grid k) (map_of n1 k)"
    by auto
  from camp_apply_result [OF d, of n2] n n1(2) n2(2) obtain n3 where n3:
    "behavior_apply CampBehavior grid n2 = Inr n3" "keys n3 = keys n2"
    "\<And>k. map_of n3 k = map_option (\<lambda>s. s\<lparr>camp := camp s + camp_inflow grid k\<rparr>) (map_of n2 k)"
    by auto
  have a: "apply_behaviors grid next_grid = Inr n3"
    using n1(1) n2(1) n3(1) by (simp add: apply_behaviors_def behaviors_def)
  have "\<And>k. map_option camp (map_of n3 k)
                    = map_option (\<lambda>s. camp s + food_camp grid k + camp_inflow grid k)
                        (map_of next_grid k)"
  proof -
    fix k
    have "map_option camp (map_of n3 k) = map_option (\<lambda>v. v + camp_inflow grid k) (map_option camp (map_of n2 k))"
      by (simp add: n3(3) option.map_comp comp_def)
    also have "\<dots> = map_option (\<lambda>v. v + camp_inflow grid k)
        (map_option (\<lambda>v. v + food_camp grid k) (map_option camp (map_of n1 k)))"
      by (simp add: n2(3) option.map_comp comp_def)
    also have "\<dots> = map_option (\<lambda>s. camp s + food_camp grid k + camp_inflow grid k) (map_of next_grid k)"
      by (simp add: n1(3) option.map_comp comp_def)
    finally show "map_option camp (map_of n3 k)
                    = map_option (\<lambda>s. camp s + food_camp grid k + camp_inflow grid k)
                        (map_of next_grid k)" .
  qed
  with a n3(2) n2(2) n1(2) show ?thesis by simp
qed

section \<open>The step and the run loop\<close>

text \<open>
  Every exception of the three behaviors is a KeyError, and a behavior that completes keeps
  the keys of the next grid. A non-empty grid has a key whose right neighbor is not a key;
  the Camp behavior writes to it, so on a non-empty grid the behaviors never all complete.
\<close>

lemma fold_err_keys:
  assumes "\<And>x s s'. f x s = Inr s' \<Longrightarrow> keys s' = keys s"
  shows "fold_err f xs s = Inr s' \<Longrightarrow> keys s' = keys s"
proof (induction xs arbitrary: s)
  case Nil then show ?case by simp
next
  case (Cons x xs)
  then obtain s1 where "f x s = Inr s1" "fold_err f xs s1 = Inr s'"
    by (auto split: sum.splits)
  with Cons.IH assms show ?case by metis
qed

lemma fold_err_KeyError:
  assumes "\<And>x s e. f x s = Inl e \<Longrightarrow> e = KeyError"
  shows "fold_err f xs s = Inl e \<Longrightarrow> e = KeyError"
proof (induction xs arbitrary: s)
  case Nil then show ?case by simp
next
  case (Cons x xs)
  show ?case
  proof (cases "f x s")
    case (Inl e')
    with Cons.prems assms show ?thesis by auto
  next
    case (Inr s1)
    with Cons.prems Cons.IH show ?thesis by auto
  qed
qed

lemma upd_site_KeyError: "upd_site c f g = Inl e \<Longrightarrow> e = KeyError"
  by (auto simp: upd_site_def split: option.splits)

lemma lookup_KeyError: "lookup g c = Inl e \<Longrightarrow> e = KeyError"
  by (auto simp: lookup_def split: option.splits)

lemma lookup_all_KeyError: "lookup_all g cs = Inl e \<Longrightarrow> e = KeyError"
  by (induction cs arbitrary: e) (auto split: sum.splits dest: lookup_KeyError)

lemma weight_KeyError: "weight g tc ns n = Inl e \<Longrightarrow> e = KeyError"
  by (auto simp: weight_def split: if_splits sum.splits dest: lookup_KeyError)

lemma mold_process_site_KeyError:
  assumes "mold_process_site grid next_grid coord state = Inl e"
  shows "e = KeyError"
proof -
  have body: "\<And>tc ns x s e. (case weight grid tc ns x of Inl e \<Rightarrow> Inl e
        | Inr w \<Rightarrow> upd_site x (\<lambda>s. s\<lparr>mold := mold s + mold state * w\<rparr>) s) = Inl e \<Longrightarrow> e = KeyError"
    by (auto split: sum.splits dest: weight_KeyError upd_site_KeyError)
  from assms show ?thesis
    unfolding mold_process_site_def ranked_neighbors_def Let_def
    by (auto split: sum.splits dest: lookup_all_KeyError fold_err_KeyError [rotated, OF _ body])
qed

lemma mold_process_site_keys:
  assumes "mold_process_site grid next_grid coord state = Inr ng"
  shows "keys ng = keys next_grid"
proof -
  have body: "\<And>tc ns x s s'. (case weight grid tc ns x of Inl e \<Rightarrow> Inl e
        | Inr w \<Rightarrow> upd_site x (\<lambda>s. s\<lparr>mold := mold s + mold state * w\<rparr>) s) = Inr s' \<Longrightarrow> keys s' = keys s"
    by (auto split: sum.splits dest: upd_site_keys)
  from assms show ?thesis
    unfolding mold_process_site_def Let_def
    by (auto split: sum.splits dest: fold_err_keys [rotated, OF _ body])
qed

lemma mold_apply_keys:
  "Behavior_apply MoldBehavior grid next_grid = Inr ng \<Longrightarrow> keys ng = keys next_grid"
  unfolding Behavior_apply_def
  by (erule fold_err_keys [rotated]) (auto split: if_splits dest: mold_process_site_keys)

lemma mold_apply_KeyError:
  "Behavior_apply MoldBehavior grid next_grid = Inl e \<Longrightarrow> e = KeyError"
  unfolding Behavior_apply_def
  by (erule fold_err_KeyError [rotated]) (auto split: if_splits dest: mold_process_site_KeyError)

lemma fold_upd_KeyError: "fold_err upd us g = Inl e \<Longrightarrow> e = KeyError"
  by (erule fold_err_KeyError [rotated]) (auto simp: upd_def dest: upd_site_KeyError)

lemma right_neighbor_missing:
  assumes "g \<noteq> []"
  shows "\<exists>c\<in>set (keys g). \<exists>n\<in>set (neighbors c). n \<notin> set (keys g)"
proof -
  let ?S = "set (keys g)"
  have ne: "fst ` ?S \<noteq> {}" using assms by (simp add: keys_def)
  have fin: "finite (fst ` ?S)" by simp
  from Max_in [OF fin ne] obtain c where c: "c \<in> ?S" "fst c = Max (fst ` ?S)" by auto
  obtain x y where xy: "c = (x, y)" by (cases c)
  have "(x + 1, y) \<notin> ?S"
  proof
    assume "(x + 1, y) \<in> ?S"
    then have "x + 1 \<in> fst ` ?S" by force
    then have "x + 1 \<le> Max (fst ` ?S)" using fin by (rule_tac Max_ge)
    with c(2) xy show False by simp
  qed
  moreover have "(x + 1, y) \<in> set (neighbors c)" by (simp add: xy neighbors_def)
  ultimately show ?thesis using c(1) by blast
qed

lemma keys_zeroed: "keys (zeroed g) = keys g"
  by (simp add: zeroed_def keys_def comp_def)

lemma keys_expand_grid_sup: "set (keys g) \<subseteq> set (keys (expand_grid g))"
  unfolding expand_grid_def fold_update_keys by blast

lemma apply_behaviors_raises:
  assumes "g \<noteq> []"
  shows "apply_behaviors (expand_grid g) (zeroed g) = Inl KeyError"
proof -
  let ?E = "expand_grid g"
  from right_neighbor_missing [OF assms] obtain c n where
    c: "c \<in> set (keys g)" and n: "n \<in> set (neighbors c)" "n \<notin> set (keys g)" by blast
  have cE: "c \<in> set (keys ?E)" using c keys_expand_grid_sup by blast
  have miss: "\<And>ng. keys ng = keys g \<Longrightarrow> CampBehavior_apply ?E ng = Inl KeyError"
  proof -
    fix ng :: grid assume k: "keys ng = keys g"
    have "n \<in> fst ` set (map (\<lambda>(c, v). (c, add_camp v)) (camp_new_camp ?E))"
      using new_camp_facts(2) [of ?E] cE n(1) by (force simp: image_image case_prod_unfold)
    with n(2) k have "\<not> fst ` set (map (\<lambda>(c, v). (c, add_camp v)) (camp_new_camp ?E)) \<subseteq> set (keys ng)"
      by auto
    then show "CampBehavior_apply ?E ng = Inl KeyError"
      unfolding camp_apply_upd by (rule fold_upd_missing)
  qed
  show ?thesis
  proof (cases "Behavior_apply MoldBehavior ?E (zeroed g)")
    case (Inl e)
    with mold_apply_KeyError [OF Inl] show ?thesis
      by (simp add: apply_behaviors_def behaviors_def)
  next
    case (Inr n1)
    have k1: "keys n1 = keys g" using mold_apply_keys [OF Inr] by (simp add: keys_zeroed)
    show ?thesis
    proof (cases "Behavior_apply FoodBehavior ?E n1")
      case (Inl e)
      then have "e = KeyError" unfolding food_apply_upd by (rule fold_upd_KeyError)
      with Inl Inr show ?thesis
        by (simp add: apply_behaviors_def behaviors_def)
    next
      case n2: (Inr n2)
      then have "keys n2 = keys n1" unfolding food_apply_upd by (rule fold_upd_keys)
      with k1 have "CampBehavior_apply ?E n2 = Inl KeyError" by (simp add: miss)
      with Inr n2 show ?thesis
        by (simp add: apply_behaviors_def behaviors_def)
    qed
  qed
qed

lemma step_nonempty_raises:
  "current_grid sim \<noteq> [] \<Longrightarrow>
     step sim = Inl (KeyError, sim\<lparr>current_grid := expand_grid (current_grid sim)\<rparr>)"
  by (simp add: step_def Let_def apply_behaviors_raises)

lemma step_empty: "current_grid sim = [] \<Longrightarrow> step sim = Inr sim"
  by (simp add: step_def Let_def expand_grid_def new_cells_def keys_def zeroed_def
      apply_behaviors_def behaviors_def Behavior_apply_def CampBehavior_apply_def
      camp_new_camp_def prune_empty_sites_def)

lemma step_history: "step sim = Inr sim' \<Longrightarrow> history sim' = history sim"
  by (auto simp: step_def Let_def split: sum.splits)

lemma run_loop_history:
  "run_loop n sim = Inr sim' \<Longrightarrow>
     length (history sim') = length (history sim) + n
   \<and> take (length (history sim)) (history sim') = history sim
   \<and> (0 < n \<longrightarrow> history sim' ! length (history sim) = current_grid sim)"
proof (induction n arbitrary: sim)
  case 0
  then show ?case by simp
next
  case (Suc n)
  let ?s0 = "sim\<lparr>history := history sim @ [current_grid sim]\<rparr>"
  from Suc.prems obtain s1 where s1: "step ?s0 = Inr s1" "run_loop n s1 = Inr sim'"
    by (auto split: sum.splits)
  have h1: "history s1 = history sim @ [current_grid sim]"
    using step_history [OF s1(1)] by simp
  from Suc.IH [OF s1(2)] have
    l: "length (history sim') = length (history s1) + n"
    and t: "take (length (history s1)) (history sim') = history s1"
    by simp_all
  define rest where "rest = drop (length (history s1)) (history sim')"
  have "history sim' = history s1 @ rest"
    unfolding rest_def using t append_take_drop_id [of "length (history s1)" "history sim'"] by simp
  then have e: "history sim' = history sim @ current_grid sim # rest"
    by (simp add: h1)
  have a: "take (length (history sim)) (history sim') = history sim"
    by (subst e) simp
  have b: "history sim' ! length (history sim) = current_grid sim"
    by (subst e) simp
  from l h1 a b show ?case by simp
qed

lemma run_nonempty_raises:
  "current_grid sim \<noteq> [] \<Longrightarrow> 0 < steps \<Longrightarrow>
     run steps sim = Inl (KeyError, \<lparr>current_grid = expand_grid (current_grid sim),
                                    history = history sim @ [current_grid sim]\<rparr>)"
proof -
  assume g: "current_grid sim \<noteq> []" and s: "0 < steps"
  then obtain n where n: "nat steps = Suc n" by (cases "nat steps") auto
  show ?thesis
    using g by (simp add: run_def n step_nonempty_raises)
qed

section \<open>The claims\<close>

text \<open>
  C9. \<^verbatim>\<open>expand_grid\<close> adds exactly the neighbors of the keys it was called with that are
  not keys already, each with the all-zero state, and keeps the state of every old key;
  neighbors of the added cells are not added. On a grid in which all neighbors of all
  keys are present it returns the grid unchanged.
\<close>

theorem expand_grid_exact:
  "set (keys (expand_grid grid)) = set (keys grid) \<union> (\<Union>c\<in>set (keys grid). set (neighbors c))
   \<and> map_of (expand_grid grid) k =
       (if k \<in> set (keys grid) then map_of grid k
        else if k \<in> (\<Union>c\<in>set (keys grid). set (neighbors c)) then Some zero_site else None)
   \<and> ((\<forall>c\<in>set (keys grid). set (neighbors c) \<subseteq> set (keys grid)) \<longrightarrow> expand_grid grid = grid)"
proof (intro conjI impI)
  show "set (keys (expand_grid grid)) = set (keys grid) \<union> (\<Union>c\<in>set (keys grid). set (neighbors c))"
    unfolding expand_grid_def fold_update_keys set_new_cells by blast
next
  have "k \<notin> set (keys grid) \<Longrightarrow> k \<notin> (\<Union>c\<in>set (keys grid). set (neighbors c)) \<Longrightarrow> map_of grid k = None"
    by (simp add: keys_def map_of_eq_None_iff)
  then show "map_of (expand_grid grid) k =
       (if k \<in> set (keys grid) then map_of grid k
        else if k \<in> (\<Union>c\<in>set (keys grid). set (neighbors c)) then Some zero_site else None)"
    unfolding expand_grid_def fold_update_map_of set_new_cells by auto
next
  assume "\<forall>c\<in>set (keys grid). set (neighbors c) \<subseteq> set (keys grid)"
  then have "set (new_cells grid) = {}"
    unfolding set_new_cells by blast
  then show "expand_grid grid = grid"
    by (simp add: expand_grid_def)
qed

theorem expand_grid_exact_witness:
  "keys ([] :: grid) = []
   \<and> expand_grid [] = []
   \<and> set (keys (expand_grid initialize_grid)) = {(0, 0), (- 1, 0), (1, 0), (0, - 1), (0, 1)}
   \<and> map_of (expand_grid initialize_grid) (1, 0) = Some zero_site
   \<and> map_of (expand_grid initialize_grid) (2, 0) = None"
  using expand_grid_exact [of "[]" "(0, 0)"] expand_grid_exact [of initialize_grid "(1, 0)"]
    expand_grid_exact [of initialize_grid "(2, 0)"]
  by (simp add: keys_def initialize_grid_def neighbors_def insert_commute)


text \<open>
  C1. On the seed grid the next grid is built from the single key (0,0) before the
  current grid is expanded to five keys, so the key set of the next grid does not cover
  the expanded grid, and the Mold behavior's first write to a neighbor raises KeyError.
  A next grid over the five expanded keys lets the Mold and Food behaviors complete, but
  the Camp behavior still raises KeyError: its commit loop writes to the neighbors of
  every key of the expanded grid.
\<close>

theorem next_grid_misses_expanded_keys:
  "keys (zeroed initialize_grid) = [(0, 0)]
   \<and> keys (expand_grid initialize_grid) = [(0, 0), (- 1, 0), (1, 0), (0, - 1), (0, 1)]
   \<and> behavior_apply MoldBehavior (expand_grid initialize_grid) (zeroed initialize_grid) = Inl KeyError
   \<and> apply_behaviors (expand_grid initialize_grid) (zeroed initialize_grid) = Inl KeyError
   \<and> behavior_apply CampBehavior (expand_grid initialize_grid)
         (zeroed (expand_grid initialize_grid)) = Inl KeyError
   \<and> apply_behaviors (expand_grid initialize_grid) (zeroed (expand_grid initialize_grid))
         = Inl KeyError"
  by code_simp

text \<open>
  C2, as stated, fails: one step from the seed grid does not complete, it raises KeyError
  and leaves the simulation with the expanded current grid.
\<close>

theorem step_seed_raises:
  "step Simulation_init
     = Inl (KeyError, \<lparr>current_grid = expand_grid initialize_grid, history = []\<rparr>)"
  by code_simp

text \<open>
  C2, amended. When the three behaviors are applied in order to the expanded seed grid
  with a zeroed next grid that holds every coordinate they write (the seed, its neighbors
  and their neighbors), the application completes; each of the four neighbors of (0,0)
  holds mold 25 and camp 0, and (0,0) holds food -10 and camp 15: the next grid starts
  from zero, so the seed's food 5 is not carried over, and the Food behavior adds
  0.1 * 100 * 1.5 to the camp of (0,0).
\<close>

theorem seed_behaviors_result:
  "(case apply_behaviors (expand_grid initialize_grid)
           (zeroed (expand_grid (expand_grid initialize_grid))) of
      Inl e \<Rightarrow> False
    | Inr ng \<Rightarrow>
        map (\<lambda>n. map_option mold (map_of ng n)) (neighbors (0, 0)) = [Some 25, Some 25, Some 25, Some 25]
      \<and> map (\<lambda>n. map_option camp (map_of ng n)) (neighbors (0, 0)) = [Some 0, Some 0, Some 0, Some 0]
      \<and> map_option food (map_of ng (0, 0)) = Some (- 10)
      \<and> map_option camp (map_of ng (0, 0)) = Some 15)"
  by code_simp

text \<open>
  C7. \<^verbatim>\<open>run(2)\<close> on a freshly constructed simulation appends the initial grid, then the
  first step raises KeyError: the history holds one snapshot, not two.
\<close>

theorem run_seed_raises:
  "run 2 Simulation_init
     = Inl (KeyError, \<lparr>current_grid = expand_grid initialize_grid, history = [initialize_grid]\<rparr>)
   \<and> length [initialize_grid] \<noteq> (2 :: nat)"
  by code_simp

text \<open>
  C3, as stated, fails on the seed grid, whose site (0,0) is active under the Food rule:
  the step does not complete, and the Food behavior applied to the next grid that the
  step builds leaves food -10 at (0,0), where the claim says 5 - 0.1 * 100 = -5.
\<close>

theorem food_seed_not_carried_over:
  "map_of initialize_grid (0, 0) = Some \<lparr>mold = 100, food = 5, camp = 0, refractory = 0\<rparr>
   \<and> is_process_site FoodBehavior \<lparr>mold = 100, food = 5, camp = 0, refractory = 0\<rparr>
   \<and> step Simulation_init
       = Inl (KeyError, \<lparr>current_grid = expand_grid initialize_grid, history = []\<rparr>)
   \<and> behavior_apply FoodBehavior (expand_grid initialize_grid) (zeroed initialize_grid)
       = Inr [((0, 0), \<lparr>mold = 0, food = - 10, camp = 15, refractory = 0\<rparr>)]
   \<and> 5 - food_consumption_rate CONFIG * 100 = - 5"
  by code_simp

text \<open>
  C3, amended. For every site of the current grid that is active under the Food rule,
  when the next grid holds every active coordinate, the Food behavior completes, keeps
  the keys of the next grid, and changes the entry of the same coordinate by exactly
  \<open>food -= food_consumption_rate * mold\<close> and
  \<open>camp += food_consumption_rate * mold * amplification_factor\<close>, whatever the entry
  held before (so whatever Mold and Camp write there). The food is counted from the next
  grid's entry, which \<^verbatim>\<open>step\<close> builds as zero, not from the current food.
\<close>
theorem food_contribution:
  assumes "distinct (keys grid)"
    and "map_of grid coord = Some state"
    and "is_process_site FoodBehavior state"
    and "fst ` {(c, s) \<in> set grid. is_process_site FoodBehavior s} \<subseteq> set (keys next_grid)"
  shows "\<exists>ng n. behavior_apply FoodBehavior grid next_grid = Inr ng
           \<and> keys ng = keys next_grid
           \<and> map_of next_grid coord = Some n
           \<and> map_of ng coord =
               Some (n\<lparr>camp := camp n + food_consumption_rate CONFIG * mold state * amplification_factor CONFIG,
                      food := food n - food_consumption_rate CONFIG * mold state\<rparr>)"
proof -
  have sub: "fst ` set (food_updates grid) \<subseteq> set (keys next_grid)"
    using assms(4) by (fastforce simp: food_updates_def)
  from fold_upd_map_of [OF distinct_food_updates [OF assms(1)] sub]
  obtain ng where ng: "fold_err upd (food_updates grid) next_grid = Inr ng"
    "keys ng = keys next_grid"
    "\<And>c. map_of ng c = (case map_of (food_updates grid) c of None \<Rightarrow> map_of next_grid c
                                | Some f \<Rightarrow> map_option f (map_of next_grid c))"
    by blast
  have "(coord, state) \<in> set grid" using assms(2) by (rule map_of_SomeD)
  with assms(3,4) have "coord \<in> set (keys next_grid)" by force
  then obtain n where n: "map_of next_grid coord = Some n" by (auto simp: in_keys_map_of)
  have "map_of ng coord = Some (food_effect state n)"
    using ng(3) [of coord] map_of_food_updates [OF assms(1,2)] assms(3) n by simp
  with ng(1,2) n show ?thesis
    by (auto simp: food_apply_upd food_effect_def)
qed


theorem food_contribution_witness:
  "distinct (keys initialize_grid)
   \<and> map_of initialize_grid (0, 0) = Some \<lparr>mold = 100, food = 5, camp = 0, refractory = 0\<rparr>
   \<and> is_process_site FoodBehavior \<lparr>mold = 100, food = 5, camp = 0, refractory = 0\<rparr>
   \<and> (\<exists>ng. behavior_apply FoodBehavior initialize_grid
               [((0, 0), \<lparr>mold = 7, food = 1, camp = 2, refractory = 0\<rparr>)] = Inr ng
          \<and> map_of ng (0, 0) = Some \<lparr>mold = 7, food = - 9, camp = 17, refractory = 0\<rparr>)"
proof -
  let ?s = "\<lparr>mold = 100, food = 5, camp = 0, refractory = 0\<rparr> :: site"
  let ?next = "[((0, 0), \<lparr>mold = 7, food = 1, camp = 2, refractory = 0\<rparr>)] :: grid"
  have d: "distinct (keys initialize_grid)"
    by (simp add: keys_def initialize_grid_def)
  have m: "map_of initialize_grid (0, 0) = Some ?s"
    by (simp add: initialize_grid_def CONFIG_def)
  have a: "is_process_site FoodBehavior ?s"
    by (simp add: CONFIG_def)
  have k: "fst ` {(c, s) \<in> set initialize_grid. is_process_site FoodBehavior s} \<subseteq> set (keys ?next)"
    by (auto simp: initialize_grid_def keys_def)
  from food_contribution [OF d m a k] obtain ng n where
    "behavior_apply FoodBehavior initialize_grid ?next = Inr ng"
    "map_of ?next (0, 0) = Some n"
    "map_of ng (0, 0) =
       Some (n\<lparr>camp := camp n + food_consumption_rate CONFIG * mold ?s * amplification_factor CONFIG,
              food := food n - food_consumption_rate CONFIG * mold ?s\<rparr>)"
    by blast
  then have "behavior_apply FoodBehavior initialize_grid ?next = Inr ng
      \<and> map_of ng (0, 0) = Some \<lparr>mold = 7, food = - 9, camp = 17, refractory = 0\<rparr>"
    by (auto simp: CONFIG_def)
  with d m a show ?thesis by blast
qed

text \<open>
  C5, as stated, fails at the call the step makes on the seed grid: the site (0,0) is
  active under the Mold rule and its four neighbors hold camp 0 in the expanded grid, yet
  \<^verbatim>\<open>MoldBehavior.process_site\<close> raises KeyError at its first write, because the next
  grid has no such key, and no neighbor receives anything.
\<close>

theorem mold_seed_write_raises:
  "map_of (expand_grid initialize_grid) (0, 0)
     = Some \<lparr>mold = 100, food = 5, camp = 0, refractory = 0\<rparr>
   \<and> is_process_site MoldBehavior \<lparr>mold = 100, food = 5, camp = 0, refractory = 0\<rparr>
   \<and> map (\<lambda>n. map_option camp (map_of (expand_grid initialize_grid) n)) (neighbors (0, 0))
       = [Some 0, Some 0, Some 0, Some 0]
   \<and> keys (zeroed initialize_grid) = [(0, 0)]
   \<and> process_site MoldBehavior (expand_grid initialize_grid) (zeroed initialize_grid) (0, 0)
         \<lparr>mold = 100, food = 5, camp = 0, refractory = 0\<rparr> = Inl KeyError"
  by code_simp

text \<open>
  C5, amended. When the four neighbors of a source coordinate all hold camp 0 in the grid
  and are keys of the next grid, \<^verbatim>\<open>MoldBehavior.process_site\<close> completes and adds
  exactly a quarter of the source's mold to each of the four neighbors and nothing
  anywhere else.
\<close>

theorem mold_uniform_fallback:
  assumes "\<forall>n\<in>set (neighbors coord). \<exists>s. map_of grid n = Some s \<and> camp s = 0"
    and "set (neighbors coord) \<subseteq> set (keys next_grid)"
  shows "\<exists>ng. process_site MoldBehavior grid next_grid coord state = Inr ng
           \<and> (\<forall>c. map_of ng c =
                 (if c \<in> set (neighbors coord)
                  then map_option (\<lambda>s. s\<lparr>mold := mold s + mold state / 4\<rparr>) (map_of next_grid c)
                  else map_of next_grid c))"
proof -
  have g: "set (neighbors coord) \<subseteq> set (keys grid)"
    using assms(1) by (auto simp: in_keys_map_of)
  have "\<And>n. n \<in> set (neighbors coord) \<Longrightarrow> camp_at grid n = 0"
    using assms(1) by (auto simp: camp_at_def)
  then have "map (camp_at grid) (neighbors coord) = map (\<lambda>n. 0) (neighbors coord)"
    by (intro map_cong refl)
  then have "neighbor_camp_total grid coord = sum_list (map (\<lambda>n. 0) (neighbors coord))"
    by (simp only: neighbor_camp_total_def)
  then have "neighbor_camp_total grid coord = 0"
    by simp
  then have w: "\<And>c. share_weight grid coord c = 1 / 4"
    by (simp add: share_weight_def)
  from mold_process_site_result [OF g assms(2), of state] obtain ng where
    "mold_process_site grid next_grid coord state = Inr ng"
    "\<And>c. map_of ng c =
       (if c \<in> set (neighbors coord)
        then map_option (add_mold (mold state * share_weight grid coord c)) (map_of next_grid c)
        else map_of next_grid c)"
    by blast
  then show ?thesis
    by (simp add: w add_mold_def [abs_def])
qed

theorem mold_uniform_fallback_witness:
  "map (\<lambda>n. map_option camp (map_of (expand_grid initialize_grid) n)) (neighbors (0, 0))
     = [Some 0, Some 0, Some 0, Some 0]
   \<and> set (neighbors (0, 0)) \<subseteq> set (keys (zeroed (expand_grid initialize_grid)))
   \<and> (\<exists>ng. process_site MoldBehavior (expand_grid initialize_grid)
               (zeroed (expand_grid initialize_grid)) (0, 0)
               \<lparr>mold = 100, food = 5, camp = 0, refractory = 0\<rparr> = Inr ng
          \<and> map (\<lambda>n. map_option mold (map_of ng n)) (neighbors (0, 0))
              = [Some 25, Some 25, Some 25, Some 25]
          \<and> map_option mold (map_of ng (0, 0)) = Some 0)"
proof -
  let ?G = "expand_grid initialize_grid"
  have c: "map (\<lambda>n. map_option camp (map_of ?G n)) (neighbors (0, 0))
     = [Some 0, Some 0, Some 0, Some 0]"
    by code_simp
  then have h: "\<forall>n\<in>set (neighbors (0, 0)). \<exists>s. map_of ?G n = Some s \<and> camp s = 0"
    by (auto simp: neighbors_def)
  have n: "set (neighbors (0, 0)) \<subseteq> set (keys (zeroed ?G))"
    by code_simp
  have z: "map (\<lambda>n. map_of (zeroed ?G) n) ((0, 0) # neighbors (0, 0))
     = [Some zero_site, Some zero_site, Some zero_site, Some zero_site, Some zero_site]"
    by code_simp
  from mold_uniform_fallback [OF h n, of "\<lparr>mold = 100, food = 5, camp = 0, refractory = 0\<rparr>"]
  obtain ng where ng: "process_site MoldBehavior ?G (zeroed ?G) (0, 0)
               \<lparr>mold = 100, food = 5, camp = 0, refractory = 0\<rparr> = Inr ng"
    "\<And>c. map_of ng c =
                 (if c \<in> set (neighbors (0, 0))
                  then map_option (\<lambda>s. s\<lparr>mold := mold s + 100 / 4\<rparr>) (map_of (zeroed ?G) c)
                  else map_of (zeroed ?G) c)"
    by auto
  have "map (\<lambda>n. map_option mold (map_of ng n)) (neighbors (0, 0))
              = [Some 25, Some 25, Some 25, Some 25]
          \<and> map_option mold (map_of ng (0, 0)) = Some 0"
    using z by (simp add: ng(2) neighbors_def zero_site_def)
  with c n ng(1) show ?thesis by auto
qed

text \<open>
  C6, as stated, fails at the seed: the four neighbors of (0,0) hold camp 0 in the expanded
  grid, so (0,0) receives nothing from them, yet after the three behaviors its camp is 15,
  not 0: the Food behavior has added it. On the next grid that the step builds, the Camp
  behavior does not complete at all, it raises KeyError.
\<close>

theorem camp_seed_not_zero:
  "map (camp_at (expand_grid initialize_grid)) (neighbors (0, 0)) = [0, 0, 0, 0]
   \<and> camp_inflow (expand_grid initialize_grid) (0, 0) = 0
   \<and> (case apply_behaviors (expand_grid initialize_grid)
             (zeroed (expand_grid (expand_grid initialize_grid))) of
        Inl e \<Rightarrow> False
      | Inr ng \<Rightarrow> map_option camp (map_of ng (0, 0)) = Some 15)
   \<and> behavior_apply CampBehavior (expand_grid initialize_grid) (zeroed initialize_grid)
       = Inl KeyError"
  by code_simp

text \<open>
  C6, amended. When the next grid holds every neighbor of every key of the grid, the Camp
  behavior completes and adds to the camp of each coordinate of the next grid exactly the
  shares sent by those of its four neighbors that are keys of the grid: a quarter of the
  decayed camp of each. A coordinate is not among its own neighbors, and changing the
  coordinate's own state in the grid does not change what it receives. A coordinate whose
  four neighbors hold no camp receives 0 and its entry is left as it was. When the next
  grid also holds the keys of the grid and the neighbors of every site with mold > 0 are
  keys of the grid, the three behaviors complete, and the camp of each coordinate is then
  the camp its entry had before, plus what the Food behavior adds there
  (\<open>food_consumption_rate * mold * amplification_factor\<close> at a site active under the
  Food rule, nothing elsewhere), plus what its neighbors send: on a zeroed entry with
  nothing coming in it is 0 exactly where the Food rule is not active.
\<close>

theorem camp_from_neighbors_only:
  assumes "distinct (keys grid)"
    and "(\<Union>c\<in>set (keys grid). set (neighbors c)) \<subseteq> set (keys next_grid)"
  shows "\<exists>ng. behavior_apply CampBehavior grid next_grid = Inr ng
           \<and> keys ng = keys next_grid
           \<and> (\<forall>k. map_of ng k
                      = map_option (\<lambda>s. s\<lparr>camp := camp s + camp_inflow grid k\<rparr>) (map_of next_grid k)
                  \<and> k \<notin> set (neighbors k)
                  \<and> (\<forall>s'. camp_inflow (AList.update k s' grid) k = camp_inflow grid k)
                  \<and> ((\<forall>n\<in>set (neighbors k). camp_at grid n = 0) \<longrightarrow>
                        camp_inflow grid k = 0 \<and> map_of ng k = map_of next_grid k))
           \<and> (set (keys grid) \<subseteq> set (keys next_grid)
                \<and> (\<forall>(c, s)\<in>set grid. mold s > 0 \<longrightarrow> set (neighbors c) \<subseteq> set (keys grid)) \<longrightarrow>
               (\<exists>ng'. apply_behaviors grid next_grid = Inr ng' \<and> keys ng' = keys next_grid
                  \<and> (\<forall>k. map_option camp (map_of ng' k)
                           = map_option (\<lambda>s. camp s + food_camp grid k + camp_inflow grid k)
                               (map_of next_grid k))))"
proof -
  from camp_apply_result [OF assms] obtain ng where ng:
    "behavior_apply CampBehavior grid next_grid = Inr ng" "keys ng = keys next_grid"
    "\<And>k. map_of ng k
            = map_option (\<lambda>s. s\<lparr>camp := camp s + camp_inflow grid k\<rparr>) (map_of next_grid k)"
    by blast
  have own: "\<And>k s'. camp_inflow (AList.update k s' grid) k = camp_inflow grid k"
    by (rule camp_inflow_ignores_own)
  have quiet: "\<And>k. \<forall>n\<in>set (neighbors k). camp_at grid n = 0 \<Longrightarrow>
      camp_inflow grid k = 0 \<and> map_of ng k = map_of next_grid k"
  proof -
    fix k assume "\<forall>n\<in>set (neighbors k). camp_at grid n = 0"
    then have z: "camp_inflow grid k = 0" by (rule camp_inflow_zero)
    have "map_of ng k = map_option (\<lambda>s. s) (map_of next_grid k)"
      by (simp add: ng(3) z)
    with z show "camp_inflow grid k = 0 \<and> map_of ng k = map_of next_grid k"
      by (simp add: option.map_ident)
  qed
  have all3: "set (keys grid) \<subseteq> set (keys next_grid)
      \<and> (\<forall>(c, s)\<in>set grid. mold s > 0 \<longrightarrow> set (neighbors c) \<subseteq> set (keys grid)) \<longrightarrow>
      (\<exists>ng'. apply_behaviors grid next_grid = Inr ng' \<and> keys ng' = keys next_grid
         \<and> (\<forall>k. map_option camp (map_of ng' k)
                  = map_option (\<lambda>s. camp s + food_camp grid k + camp_inflow grid k)
                      (map_of next_grid k)))"
    using behaviors_camp [OF assms] by blast
  from ng own quiet all3 not_own_neighbor show ?thesis by blast
qed

theorem camp_from_neighbors_only_witness:
  "distinct (keys example_grid)
   \<and> (\<Union>c\<in>set (keys example_grid). set (neighbors c)) \<subseteq> set (keys (zeroed (expand_grid example_grid)))
   \<and> set (keys example_grid) \<subseteq> set (keys (zeroed (expand_grid example_grid)))
   \<and> map (camp_at example_grid) [(0, 0), (- 1, 0), (1, 0), (0, - 1), (0, 1)] = [0, 1, 3, 0, 4]
   \<and> map (camp_at example_grid) (neighbors (- 1, 0)) = [0, 0, 0, 0]
   \<and> (\<exists>ng. behavior_apply CampBehavior example_grid (zeroed (expand_grid example_grid)) = Inr ng
          \<and> map_option camp (map_of ng (0, 0)) = Some (9 / 5)
          \<and> map_of ng (- 1, 0) = Some zero_site)
   \<and> (\<exists>ng'. apply_behaviors example_grid (zeroed (expand_grid example_grid)) = Inr ng'
          \<and> map_option camp (map_of ng' (0, 0)) = Some (9 / 5)
          \<and> map_option camp (map_of ng' (- 1, 0)) = Some 0)"
proof -
  let ?N = "zeroed (expand_grid example_grid)"
  have d: "distinct (keys example_grid)"
    by (simp add: keys_def example_grid_def)
  have s: "(\<Union>c\<in>set (keys example_grid). set (neighbors c)) \<subseteq> set (keys ?N)"
    by code_simp
  have k: "set (keys example_grid) \<subseteq> set (keys ?N)"
    by code_simp
  have m: "\<forall>(c, s)\<in>set example_grid. mold s > 0 \<longrightarrow> set (neighbors c) \<subseteq> set (keys example_grid)"
    by code_simp
  have c: "map (camp_at example_grid) [(0, 0), (- 1, 0), (1, 0), (0, - 1), (0, 1)] = [0, 1, 3, 0, 4]"
    by (simp add: camp_at_def example_grid_def)
  have q: "map (camp_at example_grid) (neighbors (- 1, 0)) = [0, 0, 0, 0]"
    by (simp add: camp_at_def example_grid_def neighbors_def)
  then have q': "\<forall>n\<in>set (neighbors (- 1, 0)). camp_at example_grid n = 0"
    by (simp add: neighbors_def)
  have z: "map_of ?N (0, 0) = Some zero_site" "map_of ?N (- 1, 0) = Some zero_site"
    by code_simp+
  have i: "camp_inflow example_grid (0, 0) = 9 / 5" "camp_inflow example_grid (- 1, 0) = 0"
    by (simp_all add: camp_inflow_def camp_share_def neighbors_def example_grid_def CONFIG_def)
  have f: "food_camp example_grid (0, 0) = 0" "food_camp example_grid (- 1, 0) = 0"
    by (simp_all add: food_camp_def example_grid_def CONFIG_def)
  from camp_from_neighbors_only [OF d s] obtain ng where ng:
    "behavior_apply CampBehavior example_grid ?N = Inr ng"
    "\<And>k. map_of ng k
            = map_option (\<lambda>s. s\<lparr>camp := camp s + camp_inflow example_grid k\<rparr>) (map_of ?N k)"
    "\<And>k. (\<forall>n\<in>set (neighbors k). camp_at example_grid n = 0) \<longrightarrow>
            camp_inflow example_grid k = 0 \<and> map_of ng k = map_of ?N k"
    and all3: "set (keys example_grid) \<subseteq> set (keys ?N)
      \<and> (\<forall>(c, s)\<in>set example_grid. mold s > 0 \<longrightarrow> set (neighbors c) \<subseteq> set (keys example_grid)) \<longrightarrow>
      (\<exists>ng'. apply_behaviors example_grid ?N = Inr ng' \<and> keys ng' = keys ?N
         \<and> (\<forall>k. map_option camp (map_of ng' k)
                  = map_option (\<lambda>s. camp s + food_camp example_grid k + camp_inflow example_grid k)
                      (map_of ?N k)))"
    by blast
  have a: "behavior_apply CampBehavior example_grid ?N = Inr ng
          \<and> map_option camp (map_of ng (0, 0)) = Some (9 / 5)
          \<and> map_of ng (- 1, 0) = Some zero_site"
    using ng(1) ng(2) [of "(0, 0)"] ng(3) [of "(- 1, 0)"] q'
    by (simp add: z i zero_site_def)
  from all3 k m obtain ng' where
    "apply_behaviors example_grid ?N = Inr ng'"
    "\<And>k. map_option camp (map_of ng' k)
            = map_option (\<lambda>s. camp s + food_camp example_grid k + camp_inflow example_grid k)
                (map_of ?N k)"
    by blast
  then have b: "apply_behaviors example_grid ?N = Inr ng'
          \<and> map_option camp (map_of ng' (0, 0)) = Some (9 / 5)
          \<and> map_option camp (map_of ng' (- 1, 0)) = Some 0"
    by (simp add: z i f zero_site_def)
  from d s k c q a b show ?thesis by blast
qed

end
